theory Spec2Isabelle
  imports Complex_Main
begin

section \<open>JavaScript values, strings and Map\<close>

text \<open>
  The request body of \<^verbatim>\<open>POST /api/verify-otp\<close> is parsed JSON, so the two fields the
  handler destructures can hold any JSON value or be absent. Only truthiness, being a string
  and strict equality with a string are observed by the handler.
\<close>

datatype jsval = JUndefined | JNull | JBool bool | JNum rat | JStr string | JObject

text \<open>The test \<^verbatim>\<open>!v\<close> is \<open>\<not> truthy v\<close>.\<close>

fun truthy :: "jsval \<Rightarrow> bool" where
  "truthy JUndefined = False"
| "truthy JNull = False"
| "truthy (JBool b) = b"
| "truthy (JNum n) = (n \<noteq> 0)"
| "truthy (JStr s) = (s \<noteq> [])"
| "truthy JObject = True"

text \<open>
  Strings are lists of characters. \<^verbatim>\<open>String.prototype.toLowerCase\<close> belongs to the
  runtime, not to the repository: the handlers below take it as their first argument,
  \<open>toLowerCase\<close>, and nothing is assumed of it.
\<close>

text \<open>
  \<^verbatim>\<open>String.prototype.substring(start, end)\<close> for non-negative integer arguments: both
  indices are clamped to the length and swapped when out of order.
\<close>

definition substring :: "nat \<Rightarrow> nat \<Rightarrow> string \<Rightarrow> string" where
  "substring start end' s =
     (let a = min start (length s); b = min end' (length s);
          lo = min a b; hi = max a b
      in take (hi - lo) (drop lo s))"

text \<open>
  A JavaScript \<^verbatim>\<open>Map\<close> iterates in insertion order: it is a list of entries with
  distinct keys. \<^verbatim>\<open>set\<close> replaces the value of a present key in place and appends an
  absent key; \<^verbatim>\<open>delete\<close> removes the entry of the key; \<^verbatim>\<open>get\<close> reads it.
\<close>

type_synonym ('k, 'v) jsmap = "('k \<times> 'v) list"

fun Map_set :: "'k \<Rightarrow> 'v \<Rightarrow> ('k, 'v) jsmap \<Rightarrow> ('k, 'v) jsmap" where
  "Map_set k v [] = [(k, v)]"
| "Map_set k v (e # m) = (if fst e = k then (k, v) # m else e # Map_set k v m)"

definition Map_delete :: "'k \<Rightarrow> ('k, 'v) jsmap \<Rightarrow> ('k, 'v) jsmap" where
  "Map_delete k m = filter (\<lambda>e. fst e \<noteq> k) m"

definition Map_get :: "'k \<Rightarrow> ('k, 'v) jsmap \<Rightarrow> 'v option" where
  "Map_get k m = map_of m k"

section \<open>The server's state\<close>

text \<open>
  \<^verbatim>\<open>otpStorage\<close> maps a chat id to \<^verbatim>\<open>{ otp, username, timestamp }\<close> and
  \<^verbatim>\<open>userSessions\<close> maps a session id to \<^verbatim>\<open>{ chatId, username, verified, timestamp }\<close>.
  Times are the integer milliseconds of \<^verbatim>\<open>Date.now()\<close>.
\<close>

record userData =
  otp :: string
  username :: string
  timestamp :: int

record session =
  chatId :: int
  session_username :: string
  verified :: bool
  session_timestamp :: int

text \<open>
  The texts handed to \<^verbatim>\<open>bot.sendMessage\<close>, one constructor per template of the source,
  holding the value the template interpolates.
\<close>

datatype message =
    OtpMarkdown string
  | OtpPlain string
  | Welcome string

datatype js_error = ReferenceError string | TypeError | SendFailed

datatype log_line =
    LogOtpGenerated string string int
  | LogOtpSent string string int int
  | LogExpiredRemoved int
  | ErrorInStartHandler js_error
  | ErrorFallbackFailed js_error

record state =
  otpStorage :: "(int, userData) jsmap"
  userSessions :: "(string, session) jsmap"
  sent :: "(int \<times> message) list"
  console :: "log_line list"

definition initial_state :: state where
  "initial_state = \<lparr> otpStorage = [], userSessions = [], sent = [], console = [] \<rparr>"

section \<open>Code generator\<close>

text \<open>
  \<^verbatim>\<open>generateSessionId\<close> calls \<^verbatim>\<open>Math.random().toString(36)\<close> twice. The two
  renderings (a string such as \<open>''0.4fzyo82mvyr''\<close>: a zero, a point and the base-36 digits
  of the fraction; \<open>''0.i''\<close> for the random number 0.5 and \<open>''0''\<close> for 0) are its inputs
  here; the function keeps \<^verbatim>\<open>substring(2, 15)\<close> of each and concatenates.
\<close>

definition generateSessionId :: "string \<Rightarrow> string \<Rightarrow> string" where
  "generateSessionId random1 random2 = substring 2 15 random1 @ substring 2 15 random2"

definition base36_digits :: string where
  "base36_digits = ''0123456789abcdefghijklmnopqrstuvwxyz''"

text \<open>A rendering of a number in the interval from 0 to 1 in radix 36.\<close>

definition is_base36_rendering :: "string \<Rightarrow> bool" where
  "is_base36_rendering r =
     (r = ''0'' \<or> (take 2 r = ''0.'' \<and> drop 2 r \<noteq> [] \<and> list_all (\<lambda>c. c \<in> set base36_digits) (drop 2 r)))"

section \<open>The \<^verbatim>\<open>/start\<close> handler\<close>

text \<open>
  An inbound Telegram message: \<^verbatim>\<open>msg.chat.id\<close>, and \<^verbatim>\<open>msg.from.username\<close> and
  \<^verbatim>\<open>msg.from.first_name\<close>, each a string or absent.
\<close>

record msg =
  chat_id :: int
  from_username :: "string option"
  from_first_name :: "string option"

text \<open>\<^verbatim>\<open>a || b\<close> on optional strings: an absent or empty string is falsy.\<close>

fun or_else :: "string option \<Rightarrow> string \<Rightarrow> string" where
  "or_else None d = d"
| "or_else (Some a) d = (if a = [] then d else a)"

text \<open>
  \<^verbatim>\<open>bot.sendMessage(chatId, text)\<close>: the attempt is recorded, and the promise resolves or
  rejects as the network decides (\<open>delivers\<close>).
\<close>

definition bot_sendMessage ::
  "(int \<Rightarrow> message \<Rightarrow> bool) \<Rightarrow> int \<Rightarrow> message \<Rightarrow> state \<Rightarrow> (js_error + unit) \<times> state" where
  "bot_sendMessage delivers cid text s =
     (let s' = s\<lparr> sent := sent s @ [(cid, text)] \<rparr>
      in if delivers cid text then (Inr (), s') else (Inl SendFailed, s'))"

text \<open>
  The handler of \<^verbatim>\<open>src/server.js\<close>. \<open>code\<close> is what \<^verbatim>\<open>generateOTP()\<close> returned and
  \<open>now\<close> what \<^verbatim>\<open>Date.now()\<close> returned. A rejected send leaves the handler's promise
  rejected: the log line after the \<^verbatim>\<open>await\<close> is not reached.
\<close>

definition start_handler ::
  "(int \<Rightarrow> message \<Rightarrow> bool) \<Rightarrow> int \<Rightarrow> string \<Rightarrow> msg \<Rightarrow> state \<Rightarrow> state" where
  "start_handler delivers now code m s =
     (let cid = chat_id m;
          name = or_else (from_username m) (or_else (from_first_name m) ''User'');
          s1 = s\<lparr> otpStorage :=
                 Map_set cid \<lparr> otp = code, username = name, timestamp = now \<rparr> (otpStorage s) \<rparr>
      in case bot_sendMessage delivers cid (OtpMarkdown code) s1 of
           (Inr _, s2) \<Rightarrow> s2\<lparr> console := console s2 @ [LogOtpGenerated code name cid] \<rparr>
         | (Inl _, s2) \<Rightarrow> s2)"

section \<open>Verification\<close>

datatype response =
    Res400 string
  | Res404 string
  | Res404_no_route
  | Res500
  | Res200_verify string string
  | Res200_session string bool int

abbreviation InvalidRequest :: response where
  "InvalidRequest \<equiv> Res400 ''Username and OTP are required''"

abbreviation Expired :: response where
  "Expired \<equiv> Res400 ''OTP has expired''"

abbreviation InvalidCredentials :: response where
  "InvalidCredentials \<equiv> Res400 ''Invalid username or OTP''"

text \<open>
  The scan loop of the handler over \<^verbatim>\<open>otpStorage.entries()\<close>. It ends at the first entry
  whose user name (compared in lower case) and code equal the submitted ones: with
  \<open>ExpiredAt\<close> when that entry is older than ten minutes (the handler deletes it and
  returns), with \<open>Found\<close> otherwise (\<^verbatim>\<open>break\<close>). \<^verbatim>\<open>username.toLowerCase()\<close> throws a
  TypeError when the submitted user name is not a string.
\<close>

datatype scan_result = NotFound | Found int userData | ExpiredAt int | Threw

fun scan ::
  "(string \<Rightarrow> string) \<Rightarrow> int \<Rightarrow> jsval \<Rightarrow> jsval \<Rightarrow> (int, userData) jsmap \<Rightarrow> scan_result" where
  "scan toLowerCase now req_username req_otp [] = NotFound"
| "scan toLowerCase now req_username req_otp ((cid, data) # rest) =
     (case req_username of
        JStr u \<Rightarrow>
          if toLowerCase (username data) = toLowerCase u \<and> JStr (otp data) = req_otp then
            (if now - timestamp data > 10 * 60 * 1000 then ExpiredAt cid else Found cid data)
          else scan toLowerCase now req_username req_otp rest
      | _ \<Rightarrow> Threw)"

text \<open>
  \<^verbatim>\<open>app.post('/api/verify-otp')\<close>, whose store operations are the same in
  \<^verbatim>\<open>src/server.js\<close> and in the two other variants. \<open>now\<close> is the clock reading in the loop,
  \<open>now'\<close> the one that stamps the session, \<open>random1\<close> and \<open>random2\<close> the two renderings
  \<^verbatim>\<open>generateSessionId\<close> draws. After the loop the handler tests \<^verbatim>\<open>!foundChatId\<close>,
  which holds when nothing was found and also when the found chat id is 0.
\<close>

definition verify_otp ::
  "(string \<Rightarrow> string) \<Rightarrow> int \<Rightarrow> int \<Rightarrow> string \<Rightarrow> string \<Rightarrow> jsval \<Rightarrow> jsval \<Rightarrow> state
     \<Rightarrow> response \<times> state" where
  "verify_otp toLowerCase now now' random1 random2 req_username req_otp s =
     (if \<not> truthy req_username \<or> \<not> truthy req_otp then (InvalidRequest, s)
      else case scan toLowerCase now req_username req_otp (otpStorage s) of
        Threw \<Rightarrow> (Res500, s)
      | ExpiredAt cid \<Rightarrow> (Expired, s\<lparr> otpStorage := Map_delete cid (otpStorage s) \<rparr>)
      | NotFound \<Rightarrow> (InvalidCredentials, s)
      | Found foundChatId foundUserData \<Rightarrow>
          if foundChatId = 0 then (InvalidCredentials, s)
          else
            let sessionId = generateSessionId random1 random2
            in (Res200_verify sessionId (username foundUserData),
                s\<lparr> userSessions :=
                     Map_set sessionId
                       \<lparr> chatId = foundChatId, session_username = username foundUserData,
                         verified = True, session_timestamp = now' \<rparr> (userSessions s),
                   otpStorage := Map_delete foundChatId (otpStorage s),
                   sent := sent s @ [(foundChatId, Welcome (username foundUserData))] \<rparr>))"

text \<open>
  \<^verbatim>\<open>app.get('/api/session/:sessionId')\<close>. \<open>sessionId\<close> is the last segment of the
  request's path, percent-decoded. The route matches a segment of at least one character: for
  the path \<^verbatim>\<open>/api/session/\<close> no route of the application matches, the handler is not
  entered and the framework answers 404 itself (\<open>Res404_no_route\<close>).
\<close>

definition get_session :: "string \<Rightarrow> state \<Rightarrow> response" where
  "get_session sessionId s =
     (if sessionId = [] then Res404_no_route
      else case Map_get sessionId (userSessions s) of
        None \<Rightarrow> Res404 ''Session not found''
      | Some sess \<Rightarrow>
          Res200_session (session_username sess) (verified sess) (session_timestamp sess))"

section \<open>Expiry sweeper\<close>

text \<open>
  The callback handed to \<^verbatim>\<open>setInterval\<close> loops over the entries and deletes each one
  older than ten minutes; deleting the entry under the cursor leaves the entries still to be
  visited as they are. The second argument of \<^verbatim>\<open>setInterval\<close> is the period.
\<close>

fun sweep_loop :: "int \<Rightarrow> (int, userData) jsmap \<Rightarrow> state \<Rightarrow> state" where
  "sweep_loop now [] s = s"
| "sweep_loop now ((cid, data) # rest) s =
     sweep_loop now rest
       (if now - timestamp data > 10 * 60 * 1000
        then s\<lparr> otpStorage := Map_delete cid (otpStorage s),
                console := console s @ [LogExpiredRemoved cid] \<rparr>
        else s)"

definition sweeper_tick :: "int \<Rightarrow> state \<Rightarrow> state" where
  "sweeper_tick now s = sweep_loop now (otpStorage s) s"

definition sweeper_period_ms :: int where
  "sweeper_period_ms = 5 * 60 * 1000"

section \<open>The \<^verbatim>\<open>/start\<close> handler of the webhook variant\<close>

text \<open>
  The variant in \<^verbatim>\<open>src/unnamed/part_000\<close> wraps the handler's body in
  \<^verbatim>\<open>try { ... } catch (error) { try { ... } catch (fallbackError) { ... } }\<close>. The
  \<^verbatim>\<open>const\<close> declarations \<^verbatim>\<open>otp\<close>, \<^verbatim>\<open>timestamp\<close>, \<^verbatim>\<open>message\<close>,
  \<^verbatim>\<open>sendResult\<close> and \<^verbatim>\<open>endTime\<close> stand inside the \<^verbatim>\<open>try\<close> block, so they are
  bindings of that block only. The fallback's argument is the template literal
  \<^verbatim>\<open>`Your OTP is: ${otp}\nExpires in 10 minutes.`\<close>, evaluated in the \<^verbatim>\<open>catch\<close>
  block before \<^verbatim>\<open>sendMessage\<close> is called; an identifier with no binding in scope throws a
  ReferenceError there.
\<close>

text \<open>
  The bindings of the module's top level, of the handler's body, of the \<^verbatim>\<open>try\<close> block
  and of the \<^verbatim>\<open>catch\<close> block. No global of the runtime is named \<^verbatim>\<open>otp\<close>.
\<close>

definition module_scope :: "string list" where
  "module_scope =
     [''express'', ''cors'', ''TelegramBot'', ''app'', ''port'', ''BOT_TOKEN'', ''bot'',
      ''WEBHOOK_URL'', ''otpStorage'', ''userSessions'', ''generateOTP'', ''generateSessionId'']"

definition handler_scope :: "string list" where
  "handler_scope = [''msg'', ''chatId'', ''username'', ''startTime''] @ module_scope"

definition try_scope :: "string list" where
  "try_scope = [''otp'', ''timestamp'', ''message'', ''sendResult'', ''endTime''] @ handler_scope"

definition catch_scope :: "string list" where
  "catch_scope = ''error'' # handler_scope"

definition resolve :: "string \<Rightarrow> string list \<Rightarrow> js_error + unit" where
  "resolve x scope = (if x \<in> set scope then Inr () else Inl (ReferenceError x))"

text \<open>
  The decimal rendering of an integer, as a template literal interpolates it (below
  \<open>10\<^sup>2\<^sup>1\<close> in absolute value, where chat ids are; from there on the runtime writes an
  exponent).
\<close>

definition digit_char :: "nat \<Rightarrow> char" where
  "digit_char n = ''0123456789'' ! (n mod 10)"

fun digits_of :: "nat \<Rightarrow> string" where
  "digits_of n = (if n < 10 then [digit_char n] else digits_of (n div 10) @ [digit_char n])"

declare digits_of.simps [simp del]

definition Number_toString :: "int \<Rightarrow> string" where
  "Number_toString i = (if i < 0 then CHR ''-'' # digits_of (nat (- i)) else digits_of (nat i))"

text \<open>
  \<open>startTime\<close>, \<open>now\<close> and \<open>endTime\<close> are the three readings of \<^verbatim>\<open>Date.now()\<close>, and
  \<open>code\<close> is what \<^verbatim>\<open>generateOTP()\<close> returned inside the \<^verbatim>\<open>try\<close> block.
\<close>

definition start_handler_webhook ::
  "(int \<Rightarrow> message \<Rightarrow> bool) \<Rightarrow> int \<Rightarrow> int \<Rightarrow> int \<Rightarrow> string \<Rightarrow> msg \<Rightarrow> state \<Rightarrow> state" where
  "start_handler_webhook delivers startTime now endTime code m s =
     (let cid = chat_id m;
          name = or_else (from_username m)
                   (or_else (from_first_name m) (''user_'' @ Number_toString cid));
          s1 = s\<lparr> otpStorage :=
                 Map_set cid \<lparr> otp = code, username = name, timestamp = now \<rparr> (otpStorage s) \<rparr>
      in case bot_sendMessage delivers cid (OtpMarkdown code) s1 of
           (Inr _, s2) \<Rightarrow>
             s2\<lparr> console := console s2 @ [LogOtpSent code name cid (endTime - startTime)] \<rparr>
         | (Inl error, s2) \<Rightarrow>
             (let s3 = s2\<lparr> console := console s2 @ [ErrorInStartHandler error] \<rparr>
              in case resolve ''otp'' catch_scope of
                   Inl fallbackError \<Rightarrow>
                     s3\<lparr> console := console s3 @ [ErrorFallbackFailed fallbackError] \<rparr>
                 | Inr _ \<Rightarrow>
                     (case bot_sendMessage delivers cid (OtpPlain code) s3 of
                        (Inr _, s4) \<Rightarrow> s4
                      | (Inl fallbackError, s4) \<Rightarrow>
                          s4\<lparr> console := console s4 @ [ErrorFallbackFailed fallbackError] \<rparr>)))"

section \<open>Vocabulary of the properties\<close>

text \<open>
  A stored record matches a submitted pair when the loop's condition holds for it. Two
  strings are equal up to letter case when \<^verbatim>\<open>toLowerCase\<close> gives the same string for
  both, which is the comparison the loop makes. \<open>minutes_ms n\<close> is \<open>n\<close> minutes in
  milliseconds.
\<close>

definition minutes_ms :: "int \<Rightarrow> int" where
  "minutes_ms n = n * 60 * 1000"

definition matches :: "(string \<Rightarrow> string) \<Rightarrow> string \<Rightarrow> string \<Rightarrow> userData \<Rightarrow> bool" where
  "matches toLowerCase u c d = (toLowerCase (username d) = toLowerCase u \<and> otp d = c)"

definition equal_up_to_case :: "(string \<Rightarrow> string) \<Rightarrow> string \<Rightarrow> string \<Rightarrow> bool" where
  "equal_up_to_case toLowerCase a b = (toLowerCase a = toLowerCase b)"

text \<open>
  The store as the \<^verbatim>\<open>/start\<close> handlers build it: keys are distinct (it is a
  \<^verbatim>\<open>Map\<close>) and are Telegram chat ids, which are never 0; the display name is never empty
  (the handler falls back to a literal) and neither is the six-digit code.
\<close>

definition wf_store :: "(int, userData) jsmap \<Rightarrow> bool" where
  "wf_store m =
     (distinct (map fst m) \<and>
      list_all (\<lambda>e. fst e \<noteq> 0 \<and> username (snd e) \<noteq> [] \<and> otp (snd e) \<noteq> []) m)"

text \<open>
  The states the server of \<^verbatim>\<open>src/server.js\<close> can be in: it starts empty, and each
  \<^verbatim>\<open>/start\<close> message of a Telegram chat, each verification request and each tick of the
  sweeper takes it to the next state.
\<close>

inductive reachable :: "(string \<Rightarrow> string) \<Rightarrow> state \<Rightarrow> bool"
  for toLowerCase :: "string \<Rightarrow> string" where
  init: "reachable toLowerCase initial_state"
| start: "reachable toLowerCase s \<Longrightarrow> chat_id m \<noteq> 0 \<Longrightarrow> code \<noteq> [] \<Longrightarrow>
          reachable toLowerCase (start_handler delivers now code m s)"
| verify: "reachable toLowerCase s \<Longrightarrow>
          reachable toLowerCase
            (snd (verify_otp toLowerCase now now' random1 random2 req_username req_otp s))"
| tick: "reachable toLowerCase s \<Longrightarrow> reachable toLowerCase (sweeper_tick now s)"


section \<open>Example runs\<close>

text \<open>
  States reached from the empty server by \<^verbatim>\<open>/start\<close> messages, used to evaluate the
  handlers on concrete inputs. \<open>rendering1\<close> and \<open>rendering2\<close> are two renderings of random
  numbers with eleven fraction digits.

  Every string of the examples consists of ASCII characters. For such a string
  \<^verbatim>\<open>toLowerCase\<close> returns the string with the letters A to Z replaced by a to z, which
  is \<open>toLowerCase_ascii\<close>; the examples pass it to the handlers. It says nothing of what
  \<^verbatim>\<open>toLowerCase\<close> does to other characters, and a verification reads the function only
  at the stored display names and the submitted user name.
\<close>

definition upper_letters :: string where
  "upper_letters = ''ABCDEFGHIJKLMNOPQRSTUVWXYZ''"

definition lower_letters :: string where
  "lower_letters = ''abcdefghijklmnopqrstuvwxyz''"

definition char_toLowerCase_ascii :: "char \<Rightarrow> char" where
  "char_toLowerCase_ascii c =
     (case map_of (zip upper_letters lower_letters) c of Some l \<Rightarrow> l | None \<Rightarrow> c)"

definition toLowerCase_ascii :: "string \<Rightarrow> string" where
  "toLowerCase_ascii s = map char_toLowerCase_ascii s"

definition always_delivers :: "int \<Rightarrow> message \<Rightarrow> bool" where
  "always_delivers cid text = True"

definition never_delivers :: "int \<Rightarrow> message \<Rightarrow> bool" where
  "never_delivers cid text = False"

definition start_msg :: "int \<Rightarrow> string \<Rightarrow> msg" where
  "start_msg cid name = \<lparr> chat_id = cid, from_username = Some name, from_first_name = None \<rparr>"

definition rendering1 :: string where
  "rendering1 = ''0.4fzyo82mvyr''"

definition rendering2 :: string where
  "rendering2 = ''0.k2j8s9x0q1w''"

text \<open>Chat 42, display name alice, code 123456 issued at time 0.\<close>

definition one_alice :: state where
  "one_alice = start_handler always_delivers 0 ''123456'' (start_msg 42 ''alice'') initial_state"

text \<open>Chats 41 (Alice) and 42 (alice) were both issued the code 123456 at time 0.\<close>

definition two_alices :: state where
  "two_alices =
     start_handler always_delivers 0 ''123456'' (start_msg 42 ''alice'')
       (start_handler always_delivers 0 ''123456'' (start_msg 41 ''Alice'') initial_state)"

text \<open>Chat 42 asks again at time 1000 and the generator returns 123456 once more.\<close>

definition reissued_same_code :: state where
  "reissued_same_code =
     start_handler always_delivers 1000 ''123456'' (start_msg 42 ''alice'') one_alice"

text \<open>
  Chats 41 (Alice) and 42 (alice) got the code 123456 at time 0; chat 41 asks again at time
  590000 and gets the same code: its entry keeps the first place in the store with the new
  time.
\<close>

definition live_then_stale :: state where
  "live_then_stale =
     start_handler always_delivers 590000 ''123456'' (start_msg 41 ''Alice'') two_alices"

text \<open>
  Chats 41 (Alice) and 43 (ALICE) got the code 123456 at time 0, chat 42 (alice) got the same
  code at time 590000.
\<close>

definition stale_and_live :: state where
  "stale_and_live =
     start_handler always_delivers 590000 ''123456'' (start_msg 42 ''alice'')
       (start_handler always_delivers 0 ''123456'' (start_msg 43 ''ALICE'')
         (start_handler always_delivers 0 ''123456'' (start_msg 41 ''Alice'') initial_state))"

section \<open>Properties of the Map operations\<close>

lemma Map_delete_split:
  "distinct (map fst (pre @ (k, v) # post)) \<Longrightarrow> Map_delete k (pre @ (k, v) # post) = pre @ post"
proof -
  assume d: "distinct (map fst (pre @ (k, v) # post))"
  have "\<forall>e\<in>set pre. fst e \<noteq> k" using d by auto
  moreover have "\<forall>e\<in>set post. fst e \<noteq> k" using d by auto
  ultimately show ?thesis by (simp add: Map_delete_def)
qed

lemma Map_get_delete_same: "Map_get k (Map_delete k m) = None"
  by (induction m) (auto simp: Map_get_def Map_delete_def)

lemma Map_get_set_same: "Map_get k (Map_set k v m) = Some v"
  by (induction m) (auto simp: Map_get_def)

lemma Map_get_set_other: "k' \<noteq> k \<Longrightarrow> Map_get k' (Map_set k v m) = Map_get k' m"
  by (induction m) (auto simp: Map_get_def)

lemma keys_Map_set: "fst ` set (Map_set k v m) = insert k (fst ` set m)"
  by (induction m) auto

lemma distinct_Map_set: "distinct (map fst m) \<Longrightarrow> distinct (map fst (Map_set k v m))"
proof (induction m)
  case Nil
  then show ?case by simp
next
  case (Cons e m)
  have "fst ` set (Map_set k v m) = insert k (fst ` set m)" by (rule keys_Map_set)
  with Cons show ?case by auto
qed

lemma distinct_Map_delete: "distinct (map fst m) \<Longrightarrow> distinct (map fst (Map_delete k m))"
  by (simp add: Map_delete_def distinct_map_filter)

lemma set_Map_set: "set (Map_set k v m) = insert (k, v) {e \<in> set m. fst e \<noteq> k}" if "distinct (map fst m)"
  using that by (induction m) (auto simp: rev_image_eqI)

lemma list_all_Map_set: "list_all P m \<Longrightarrow> P (k, v) \<Longrightarrow> list_all P (Map_set k v m)"
  by (induction m) auto

lemma distinct_keys_count:
  "distinct (map fst m) \<Longrightarrow> length (filter (\<lambda>e. fst e = k) m) \<le> 1"
proof (induction m)
  case Nil
  then show ?case by simp
next
  case (Cons e m)
  show ?case
  proof (cases "fst e = k")
    case True
    from Cons.prems have "fst e \<notin> fst ` set m" by simp
    with True have "\<forall>x\<in>set m. fst x \<noteq> k" by (metis image_eqI)
    then have "filter (\<lambda>e. fst e = k) m = []" by (simp add: filter_empty_conv)
    with True show ?thesis by simp
  next
    case False
    with Cons show ?thesis by simp
  qed
qed

section \<open>The scan loop\<close>

text \<open>
  Entries that do not match are skipped; the first matching entry decides the outcome, and
  an outcome other than \<open>NotFound\<close> and \<open>Threw\<close> pins down where the loop stopped.
\<close>

lemma scan_skip:
  "\<forall>e\<in>set pre. \<not> matches toLowerCase u c (snd e) \<Longrightarrow>
     scan toLowerCase now (JStr u) (JStr c) (pre @ rest) = scan toLowerCase now (JStr u) (JStr c) rest"
  by (induction pre) (auto simp: matches_def)

lemma scan_hit:
  "matches toLowerCase u c d \<Longrightarrow>
     scan toLowerCase now (JStr u) (JStr c) ((cid, d) # rest) =
       (if now - timestamp d > 10 * 60 * 1000 then ExpiredAt cid else Found cid d)"
  by (simp add: matches_def)

lemma scan_at:
  assumes "\<forall>e\<in>set pre. \<not> matches toLowerCase u c (snd e)" and "matches toLowerCase u c d"
  shows "scan toLowerCase now (JStr u) (JStr c) (pre @ (cid, d) # post) =
           (if now - timestamp d > 10 * 60 * 1000 then ExpiredAt cid else Found cid d)"
  using assms(2) by (simp add: scan_skip[OF assms(1)] matches_def)

lemma scan_none:
  "\<forall>e\<in>set m. \<not> matches toLowerCase u c (snd e) \<Longrightarrow> scan toLowerCase now (JStr u) (JStr c) m = NotFound"
  using scan_skip[where pre = m and rest = "[]"] by simp

lemma scan_Found_D:
  "scan toLowerCase now ru ro m = Found cid d \<Longrightarrow>
     \<exists>u c pre post. ru = JStr u \<and> ro = JStr c \<and> m = pre @ (cid, d) # post \<and>
        (\<forall>e\<in>set pre. \<not> matches toLowerCase u c (snd e)) \<and> matches toLowerCase u c d \<and>
        \<not> now - timestamp d > 10 * 60 * 1000"
proof (induction m)
  case Nil
  then show ?case by simp
next
  case (Cons e m)
  obtain k v where e: "e = (k, v)" by (cases e)
  from Cons.prems obtain u where u: "ru = JStr u"
    unfolding e by (cases ru) auto
  show ?case
  proof (cases "toLowerCase (username v) = toLowerCase u \<and> JStr (otp v) = ro")
    case True
    with Cons.prems have "k = cid" "v = d" "\<not> now - timestamp d > 10 * 60 * 1000"
      unfolding e u by (auto split: if_splits)
    moreover from True have "ro = JStr (otp v)" "matches toLowerCase u (otp v) v"
      by (auto simp: matches_def)
    ultimately show ?thesis
      unfolding e u by (intro exI[of _ u] exI[of _ "otp v"] exI[of _ "[]"] exI[of _ m]) simp
  next
    case False
    with Cons.prems have "scan toLowerCase now ru ro m = Found cid d"
      unfolding e u by auto
    from Cons.IH[OF this] obtain u' c pre post where
      *: "ru = JStr u'" "ro = JStr c" "m = pre @ (cid, d) # post"
         "\<forall>e\<in>set pre. \<not> matches toLowerCase u' c (snd e)" "matches toLowerCase u' c d"
         "\<not> now - timestamp d > 10 * 60 * 1000"
      by blast
    from *(1) u have [simp]: "u' = u" by simp
    from False *(2) have "\<not> matches toLowerCase u c v" by (auto simp: matches_def)
    with * show ?thesis
      unfolding e by (intro exI[of _ u] exI[of _ c] exI[of _ "(k, v) # pre"] exI[of _ post]) simp
  qed
qed

lemma scan_ExpiredAt_D:
  "scan toLowerCase now ru ro m = ExpiredAt cid \<Longrightarrow>
     \<exists>u c d pre post. ru = JStr u \<and> ro = JStr c \<and> m = pre @ (cid, d) # post \<and>
        (\<forall>e\<in>set pre. \<not> matches toLowerCase u c (snd e)) \<and> matches toLowerCase u c d \<and>
        now - timestamp d > 10 * 60 * 1000"
proof (induction m)
  case Nil
  then show ?case by simp
next
  case (Cons e m)
  obtain k v where e: "e = (k, v)" by (cases e)
  from Cons.prems obtain u where u: "ru = JStr u"
    unfolding e by (cases ru) auto
  show ?case
  proof (cases "toLowerCase (username v) = toLowerCase u \<and> JStr (otp v) = ro")
    case True
    with Cons.prems have "k = cid" "now - timestamp v > 10 * 60 * 1000"
      unfolding e u by (auto split: if_splits)
    moreover from True have "ro = JStr (otp v)" "matches toLowerCase u (otp v) v"
      by (auto simp: matches_def)
    ultimately show ?thesis
      unfolding e u
      by (intro exI[of _ u] exI[of _ "otp v"] exI[of _ v] exI[of _ "[]"] exI[of _ m]) simp
  next
    case False
    with Cons.prems have "scan toLowerCase now ru ro m = ExpiredAt cid"
      unfolding e u by auto
    from Cons.IH[OF this] obtain u' c d pre post where
      *: "ru = JStr u'" "ro = JStr c" "m = pre @ (cid, d) # post"
         "\<forall>e\<in>set pre. \<not> matches toLowerCase u' c (snd e)" "matches toLowerCase u' c d"
         "now - timestamp d > 10 * 60 * 1000"
      by blast
    from *(1) u have [simp]: "u' = u" by simp
    from False *(2) have "\<not> matches toLowerCase u c v" by (auto simp: matches_def)
    with * show ?thesis
      unfolding e
      by (intro exI[of _ u] exI[of _ c] exI[of _ d] exI[of _ "(k, v) # pre"] exI[of _ post]) simp
  qed
qed

text \<open>
  The loop reads \<^verbatim>\<open>toLowerCase\<close> at the submitted user name and at the stored display
  names only: two functions that agree there give the same scan and the same verification.
\<close>

lemma scan_cong_toLowerCase:
  assumes "f u = g u" and "\<forall>e\<in>set m. f (username (snd e)) = g (username (snd e))"
  shows "scan f now (JStr u) ro m = scan g now (JStr u) ro m"
  using assms by (induction m) auto

section \<open>The outcomes of a verification\<close>

lemma verify_otp_cases:
  "verify_otp toLowerCase now now' r1 r2 ru ro s = (res, s') \<Longrightarrow>
     (res = InvalidRequest \<and> s' = s) \<or>
     (res = InvalidCredentials \<and> s' = s) \<or>
     (res = Res500 \<and> s' = s) \<or>
     (\<exists>cid. res = Expired \<and> scan toLowerCase now ru ro (otpStorage s) = ExpiredAt cid \<and>
            s' = s\<lparr> otpStorage := Map_delete cid (otpStorage s) \<rparr>) \<or>
     (\<exists>cid d. res = Res200_verify (generateSessionId r1 r2) (username d) \<and>
            scan toLowerCase now ru ro (otpStorage s) = Found cid d \<and> cid \<noteq> 0 \<and>
            s' = s\<lparr> userSessions :=
                     Map_set (generateSessionId r1 r2)
                       \<lparr> chatId = cid, session_username = username d,
                         verified = True, session_timestamp = now' \<rparr> (userSessions s),
                    otpStorage := Map_delete cid (otpStorage s),
                    sent := sent s @ [(cid, Welcome (username d))] \<rparr>)"
  by (auto simp: verify_otp_def Let_def split: if_splits scan_result.splits)

lemma verify_otp_cong_toLowerCase:
  assumes "f u = g u"
      and "\<forall>e\<in>set (otpStorage s). f (username (snd e)) = g (username (snd e))"
  shows "verify_otp f now now' r1 r2 (JStr u) ro s = verify_otp g now now' r1 r2 (JStr u) ro s"
  by (simp add: verify_otp_def scan_cong_toLowerCase[OF assms])

lemma verify_otp_no_match:
  assumes "u \<noteq> []" "c \<noteq> []" "\<forall>e\<in>set (otpStorage s). \<not> matches toLowerCase u c (snd e)"
  shows "verify_otp toLowerCase now now' r1 r2 (JStr u) (JStr c) s = (InvalidCredentials, s)"
  using assms(1,2) by (simp add: verify_otp_def scan_none[OF assms(3)])

lemma verify_otp_expired_at:
  assumes "u \<noteq> []" "c \<noteq> []" "otpStorage s = pre @ (cid, d) # post"
    "\<forall>e\<in>set pre. \<not> matches toLowerCase u c (snd e)" "matches toLowerCase u c d"
    "now - timestamp d > 10 * 60 * 1000"
  shows "verify_otp toLowerCase now now' r1 r2 (JStr u) (JStr c) s =
           (Expired, s\<lparr> otpStorage := Map_delete cid (otpStorage s) \<rparr>)"
  using assms(1,2,6) by (simp add: verify_otp_def assms(3) scan_at[OF assms(4,5)])

lemma verify_otp_found_at:
  assumes "u \<noteq> []" "c \<noteq> []" "otpStorage s = pre @ (cid, d) # post"
    "\<forall>e\<in>set pre. \<not> matches toLowerCase u c (snd e)" "matches toLowerCase u c d"
    "\<not> now - timestamp d > 10 * 60 * 1000"
  shows "verify_otp toLowerCase now now' r1 r2 (JStr u) (JStr c) s =
           (if cid = 0 then (InvalidCredentials, s)
            else (Res200_verify (generateSessionId r1 r2) (username d),
                  s\<lparr> userSessions :=
                       Map_set (generateSessionId r1 r2)
                         \<lparr> chatId = cid, session_username = username d,
                           verified = True, session_timestamp = now' \<rparr> (userSessions s),
                     otpStorage := Map_delete cid (otpStorage s),
                     sent := sent s @ [(cid, Welcome (username d))] \<rparr>))"
  using assms(1,2,6) by (simp add: verify_otp_def assms(3) scan_at[OF assms(4,5)] Let_def)

text \<open>
  A stored chat id 0 would never verify: the scan finds the record, and the test
  \<^verbatim>\<open>!foundChatId\<close> then takes the found id for no id.
\<close>

lemma verify_otp_chat_id_zero:
  assumes "u \<noteq> []" "c \<noteq> []" "otpStorage s = pre @ (0, d) # post"
    "\<forall>e\<in>set pre. \<not> matches toLowerCase u c (snd e)" "matches toLowerCase u c d"
    "now - timestamp d \<le> 10 * 60 * 1000"
  shows "verify_otp toLowerCase now now' r1 r2 (JStr u) (JStr c) s = (InvalidCredentials, s)"
proof -
  from assms(6) have "\<not> now - timestamp d > 10 * 60 * 1000" by simp
  from verify_otp_found_at[OF assms(1-5) this] show ?thesis by simp
qed

section \<open>The sweeper's loop\<close>

lemma sweep_loop_sessions: "userSessions (sweep_loop now es s) = userSessions s"
  by (induction es arbitrary: s) auto

lemma sweep_loop_sent: "sent (sweep_loop now es s) = sent s"
  by (induction es arbitrary: s) auto

lemma sweep_loop_store:
  "otpStorage (sweep_loop now es s) =
     filter (\<lambda>e. \<not> (\<exists>x \<in> set es. fst x = fst e \<and> now - timestamp (snd x) > 10 * 60 * 1000))
       (otpStorage s)"
proof (induction es arbitrary: s)
  case Nil
  then show ?case by simp
next
  case (Cons x es)
  obtain cid d where x: "x = (cid, d)" by (cases x)
  show ?case
  proof (cases "now - timestamp d > 10 * 60 * 1000")
    case True
    have "otpStorage (sweep_loop now (x # es) s) =
            filter (\<lambda>e. \<not> (\<exists>x \<in> set es. fst x = fst e \<and> now - timestamp (snd x) > 10 * 60 * 1000))
              (filter (\<lambda>e. fst e \<noteq> cid) (otpStorage s))"
      using True unfolding x by (simp add: Cons.IH Map_delete_def)
    also have "\<dots> = filter (\<lambda>e. \<not> (\<exists>y \<in> set (x # es). fst y = fst e \<and> now - timestamp (snd y) > 10 * 60 * 1000))
              (otpStorage s)"
      using True unfolding x filter_filter by (intro filter_cong refl) auto
    finally show ?thesis .
  next
    case False
    have "otpStorage (sweep_loop now (x # es) s) =
            filter (\<lambda>e. \<not> (\<exists>x \<in> set es. fst x = fst e \<and> now - timestamp (snd x) > 10 * 60 * 1000))
              (otpStorage s)"
      using False unfolding x by (simp add: Cons.IH)
    also have "\<dots> = filter (\<lambda>e. \<not> (\<exists>y \<in> set (x # es). fst y = fst e \<and> now - timestamp (snd y) > 10 * 60 * 1000))
              (otpStorage s)"
      using False unfolding x by (intro filter_cong refl) auto
    finally show ?thesis .
  qed
qed

section \<open>The well-formed store is an invariant\<close>

lemma wf_store_initial: "wf_store (otpStorage initial_state)"
  by (simp add: wf_store_def initial_state_def)

lemma or_else_nonempty: "d \<noteq> [] \<Longrightarrow> or_else a d \<noteq> []"
  by (cases a) auto

lemma start_handler_store:
  "otpStorage (start_handler delivers now code m s) =
     Map_set (chat_id m)
       \<lparr> otp = code,
         username = or_else (from_username m) (or_else (from_first_name m) ''User''),
         timestamp = now \<rparr> (otpStorage s)"
  by (simp add: start_handler_def bot_sendMessage_def Let_def)

lemma start_handler_sessions:
  "userSessions (start_handler delivers now code m s) = userSessions s"
  by (simp add: start_handler_def bot_sendMessage_def Let_def)

lemma wf_store_start_handler:
  assumes "wf_store (otpStorage s)" and "chat_id m \<noteq> 0" and "code \<noteq> []"
  shows "wf_store (otpStorage (start_handler delivers now code m s))"
proof -
  have "or_else (from_username m) (or_else (from_first_name m) ''User'') \<noteq> []"
    by (intro or_else_nonempty) simp
  with assms show ?thesis
    unfolding start_handler_store wf_store_def
    by (auto intro!: distinct_Map_set list_all_Map_set)
qed


lemma wf_store_Map_delete: "wf_store m \<Longrightarrow> wf_store (Map_delete k m)"
  unfolding wf_store_def
  by (auto simp: distinct_Map_delete) (auto simp: Map_delete_def list_all_iff)

lemma wf_store_verify_otp:
  assumes "wf_store (otpStorage s)"
  shows "wf_store (otpStorage (snd (verify_otp toLowerCase now now' r1 r2 req_username req_otp s)))"
proof -
  obtain res s' where v: "verify_otp toLowerCase now now' r1 r2 req_username req_otp s = (res, s')"
    by (cases "verify_otp toLowerCase now now' r1 r2 req_username req_otp s")
  from verify_otp_cases[OF v] assms have "wf_store (otpStorage s')"
    by (auto intro: wf_store_Map_delete)
  with v show ?thesis by simp
qed

lemma wf_store_sweeper_tick:
  assumes "wf_store (otpStorage s)"
  shows "wf_store (otpStorage (sweeper_tick now s))"
  using assms unfolding sweeper_tick_def sweep_loop_store wf_store_def
  by (auto simp: distinct_map_filter list_all_iff)

lemma reachable_wf_store: "reachable toLowerCase s \<Longrightarrow> wf_store (otpStorage s)"
proof (induction rule: reachable.induct)
  case init
  show ?case by (rule wf_store_initial)
next
  case (start s m code delivers now)
  then show ?case by (intro wf_store_start_handler)
next
  case (verify s now now' random1 random2 req_username req_otp)
  then show ?case by (intro wf_store_verify_otp)
next
  case (tick s now)
  then show ?case by (intro wf_store_sweeper_tick)
qed

lemma reachable_examples:
  "reachable toLowerCase one_alice" "reachable toLowerCase two_alices" "reachable toLowerCase stale_and_live"
  "reachable toLowerCase live_then_stale" "reachable toLowerCase reissued_same_code"
  unfolding one_alice_def two_alices_def stale_and_live_def live_then_stale_def
    reissued_same_code_def
  by (intro reachable.start reachable.init; simp add: start_msg_def)+

section \<open>The example runs, evaluated\<close>

lemmas example_defs =
  one_alice_def two_alices_def reissued_same_code_def stale_and_live_def live_then_stale_def
  start_msg_def
  always_delivers_def never_delivers_def rendering1_def rendering2_def initial_state_def
  start_handler_def bot_sendMessage_def

lemmas run_defs =
  verify_otp_def generateSessionId_def substring_def toLowerCase_ascii_def char_toLowerCase_ascii_def
  upper_letters_def lower_letters_def Map_delete_def Map_get_def get_session_def Let_def

lemma one_alice_store:
  "otpStorage one_alice = [(42, \<lparr> otp = ''123456'', username = ''alice'', timestamp = 0 \<rparr>)]"
  by (simp add: example_defs Let_def)

lemma two_alices_store:
  "otpStorage two_alices =
     [(41, \<lparr> otp = ''123456'', username = ''Alice'', timestamp = 0 \<rparr>),
      (42, \<lparr> otp = ''123456'', username = ''alice'', timestamp = 0 \<rparr>)]"
  by (simp add: example_defs Let_def)

lemma stale_and_live_store:
  "otpStorage stale_and_live =
     [(41, \<lparr> otp = ''123456'', username = ''Alice'', timestamp = 0 \<rparr>),
      (43, \<lparr> otp = ''123456'', username = ''ALICE'', timestamp = 0 \<rparr>),
      (42, \<lparr> otp = ''123456'', username = ''alice'', timestamp = 590000 \<rparr>)]"
  by (simp add: example_defs Let_def)


section \<open>Single use (C1)\<close>

text \<open>
  C1, as the code has it. A verification that returns 200 stopped at the first entry, in
  iteration order, that matches the submitted pair: it answers with that entry's display
  name, deletes that entry (its chat id has no record afterwards) and sets exactly one
  session, with \<open>verified = True\<close>, under the new session id. When no other entry of the
  store matches the pair, the same request repeated at any later time fails with
  \<open>InvalidCredentials\<close> and changes nothing.
\<close>

theorem verify_single_use:
  assumes ok: "verify_otp toLowerCase now now' r1 r2 (JStr u) (JStr c) s = (Res200_verify sid name, s')"
  shows "\<exists>cid d pre post.
           otpStorage s = pre @ (cid, d) # post \<and> (\<forall>e\<in>set pre. \<not> matches toLowerCase u c (snd e))
         \<and> matches toLowerCase u c d \<and> name = username d
         \<and> otpStorage s' = Map_delete cid (otpStorage s)
         \<and> Map_get cid (otpStorage s') = None
         \<and> userSessions s' =
             Map_set sid \<lparr> chatId = cid, session_username = username d,
                           verified = True, session_timestamp = now' \<rparr> (userSessions s)
         \<and> ((\<forall>e\<in>set (otpStorage s). matches toLowerCase u c (snd e) \<longrightarrow> fst e = cid) \<longrightarrow>
              verify_otp toLowerCase later later' r1' r2' (JStr u) (JStr c) s' = (InvalidCredentials, s'))"
proof -
  from verify_otp_cases[OF ok] obtain cid d where
    res: "sid = generateSessionId r1 r2" "name = username d"
    and sc: "scan toLowerCase now (JStr u) (JStr c) (otpStorage s) = Found cid d"
    and s': "s' = s\<lparr> userSessions :=
                     Map_set (generateSessionId r1 r2)
                       \<lparr> chatId = cid, session_username = username d,
                         verified = True, session_timestamp = now' \<rparr> (userSessions s),
                    otpStorage := Map_delete cid (otpStorage s),
                    sent := sent s @ [(cid, Welcome (username d))] \<rparr>"
    by auto
  from scan_Found_D[OF sc] obtain pre post where
    split: "otpStorage s = pre @ (cid, d) # post" "\<forall>e\<in>set pre. \<not> matches toLowerCase u c (snd e)"
      "matches toLowerCase u c d"
    by auto
  from ok have ne: "u \<noteq> []" "c \<noteq> []"
    by (auto simp: verify_otp_def split: if_splits)
  have replay: "verify_otp toLowerCase later later' r1' r2' (JStr u) (JStr c) s' = (InvalidCredentials, s')"
    if only: "\<forall>e\<in>set (otpStorage s). matches toLowerCase u c (snd e) \<longrightarrow> fst e = cid"
  proof (rule verify_otp_no_match[OF ne])
    show "\<forall>e\<in>set (otpStorage s'). \<not> matches toLowerCase u c (snd e)"
      using only by (auto simp: s' Map_delete_def)
  qed
  have "otpStorage s' = Map_delete cid (otpStorage s)" by (simp add: s')
  moreover have "Map_get cid (otpStorage s') = None" by (simp add: s' Map_get_delete_same)
  moreover have "userSessions s' =
             Map_set sid \<lparr> chatId = cid, session_username = username d,
                           verified = True, session_timestamp = now' \<rparr> (userSessions s)"
    by (simp add: s' res)
  ultimately show ?thesis using split res(2) replay by blast
qed

theorem verify_single_use_witness:
  "verify_otp toLowerCase_ascii 1001 1001 rendering2 rendering1 (JStr ''alice'') (JStr ''123456'')
     (snd (verify_otp toLowerCase_ascii 1000 1000 rendering1 rendering2 (JStr ''alice'') (JStr ''123456'') one_alice))
   = (InvalidCredentials,
      snd (verify_otp toLowerCase_ascii 1000 1000 rendering1 rendering2 (JStr ''alice'') (JStr ''123456'') one_alice))"
proof -
  let ?s' = "snd (verify_otp toLowerCase_ascii 1000 1000 rendering1 rendering2 (JStr ''alice'') (JStr ''123456'')
                    one_alice)"
  have "fst (verify_otp toLowerCase_ascii 1000 1000 rendering1 rendering2 (JStr ''alice'') (JStr ''123456'') one_alice)
          = Res200_verify ''4fzyo82mvyrk2j8s9x0q1w'' ''alice''"
    by (simp add: example_defs run_defs)
  then have ok: "verify_otp toLowerCase_ascii 1000 1000 rendering1 rendering2 (JStr ''alice'') (JStr ''123456'')
                   one_alice = (Res200_verify ''4fzyo82mvyrk2j8s9x0q1w'' ''alice'', ?s')"
    by (simp add: prod_eq_iff)
  from verify_single_use[OF ok, of 1001 1001 rendering2 rendering1]
  obtain cid d pre post where
    split: "otpStorage one_alice = pre @ (cid, d) # post" and
    replay: "(\<forall>e\<in>set (otpStorage one_alice). matches toLowerCase_ascii ''alice'' ''123456'' (snd e) \<longrightarrow> fst e = cid)
       \<longrightarrow> verify_otp toLowerCase_ascii 1001 1001 rendering2 rendering1 (JStr ''alice'') (JStr ''123456'') ?s'
             = (InvalidCredentials, ?s')"
    by blast
  from split have "cid = 42"
    by (simp add: one_alice_store Cons_eq_append_conv)
  then have "\<forall>e\<in>set (otpStorage one_alice). matches toLowerCase_ascii ''alice'' ''123456'' (snd e) \<longrightarrow> fst e = cid"
    by (simp add: one_alice_store)
  with replay show ?thesis by blast
qed

text \<open>
  Two chats whose display names differ only in case hold the same code. The first request
  succeeds on chat 41; the same request repeated succeeds again, on chat 42, where C1 says it
  fails.
\<close>

theorem verify_replay_counterexample:
  "fst (verify_otp toLowerCase_ascii 1000 1000 rendering1 rendering2 (JStr ''alice'') (JStr ''123456'') two_alices)
     = Res200_verify ''4fzyo82mvyrk2j8s9x0q1w'' ''Alice''
   \<and> fst (verify_otp toLowerCase_ascii 1001 1001 rendering2 rendering1 (JStr ''alice'') (JStr ''123456'')
            (snd (verify_otp toLowerCase_ascii 1000 1000 rendering1 rendering2 (JStr ''alice'') (JStr ''123456'')
                    two_alices)))
     = Res200_verify ''k2j8s9x0q1w4fzyo82mvyr'' ''alice''"
  by (simp add: example_defs run_defs)

section \<open>Expiry at verification (C2)\<close>

text \<open>
  C2, as the code has it. Let \<open>(cid, d)\<close> be the first entry in iteration order that matches
  the submitted pair. The verification fails with \<open>Expired\<close> exactly when
  \<open>now - timestamp d\<close> exceeds ten minutes, and it then removes that entry and nothing else;
  when no later entry matches either, a second attempt fails with \<open>InvalidCredentials\<close>. When
  the entry is at most ten minutes old and its chat id is not 0, the verification succeeds with
  that entry's display name.
\<close>

theorem verify_expiry:
  assumes dist: "distinct (map fst (otpStorage s))"
      and split: "otpStorage s = pre @ (cid, d) # post"
      and first: "\<forall>e\<in>set pre. \<not> matches toLowerCase u c (snd e)"
      and hit: "matches toLowerCase u c d"
      and ne: "u \<noteq> []" "c \<noteq> []"
  shows "(fst (verify_otp toLowerCase now now' r1 r2 (JStr u) (JStr c) s) = Expired
            \<longleftrightarrow> now - timestamp d > 10 * 60 * 1000)
       \<and> (now - timestamp d > 10 * 60 * 1000 \<longrightarrow>
            verify_otp toLowerCase now now' r1 r2 (JStr u) (JStr c) s = (Expired, s\<lparr> otpStorage := pre @ post \<rparr>)
          \<and> ((\<forall>e\<in>set post. \<not> matches toLowerCase u c (snd e)) \<longrightarrow>
               verify_otp toLowerCase later later' r1' r2' (JStr u) (JStr c) (s\<lparr> otpStorage := pre @ post \<rparr>)
                 = (InvalidCredentials, s\<lparr> otpStorage := pre @ post \<rparr>)))
       \<and> (now - timestamp d \<le> 10 * 60 * 1000 \<and> cid \<noteq> 0 \<longrightarrow>
            fst (verify_otp toLowerCase now now' r1 r2 (JStr u) (JStr c) s)
              = Res200_verify (generateSessionId r1 r2) (username d))"
proof -
  have del: "Map_delete cid (otpStorage s) = pre @ post"
    using dist unfolding split by (rule Map_delete_split)
  show ?thesis
  proof (cases "now - timestamp d > 10 * 60 * 1000")
    case True
    have v: "verify_otp toLowerCase now now' r1 r2 (JStr u) (JStr c) s = (Expired, s\<lparr> otpStorage := pre @ post \<rparr>)"
      using verify_otp_expired_at[OF ne split first hit True] del by simp
    have again: "verify_otp toLowerCase later later' r1' r2' (JStr u) (JStr c) (s\<lparr> otpStorage := pre @ post \<rparr>)
                 = (InvalidCredentials, s\<lparr> otpStorage := pre @ post \<rparr>)"
      if "\<forall>e\<in>set post. \<not> matches toLowerCase u c (snd e)"
      by (rule verify_otp_no_match[OF ne]) (use first that in auto)
    from True v again show ?thesis by simp
  next
    case False
    from verify_otp_found_at[OF ne split first hit False, of now' r1 r2]
    have "fst (verify_otp toLowerCase now now' r1 r2 (JStr u) (JStr c) s) =
            (if cid = 0 then InvalidCredentials
             else Res200_verify (generateSessionId r1 r2) (username d))"
      by simp
    with False show ?thesis by simp
  qed
qed

theorem verify_expiry_witness:
  "verify_otp toLowerCase_ascii 601000 601000 rendering1 rendering2 (JStr ''ALICE'') (JStr ''123456'') one_alice
     = (Expired, one_alice\<lparr> otpStorage := [] \<rparr>)
   \<and> verify_otp toLowerCase_ascii 601001 601001 rendering1 rendering2 (JStr ''ALICE'') (JStr ''123456'')
       (one_alice\<lparr> otpStorage := [] \<rparr>)
     = (InvalidCredentials, one_alice\<lparr> otpStorage := [] \<rparr>)
   \<and> fst (verify_otp toLowerCase_ascii 599000 599000 rendering1 rendering2 (JStr ''ALICE'') (JStr ''123456'') one_alice)
     = Res200_verify ''4fzyo82mvyrk2j8s9x0q1w'' ''alice''"
proof -
  let ?d = "\<lparr> otp = ''123456'', username = ''alice'', timestamp = 0 \<rparr>"
  have dist: "distinct (map fst (otpStorage one_alice))" by (simp add: one_alice_store)
  have split: "otpStorage one_alice = [] @ (42, ?d) # []" by (simp add: one_alice_store)
  have first: "\<forall>e\<in>set []. \<not> matches toLowerCase_ascii ''ALICE'' ''123456'' (snd e)" by simp
  have hit: "matches toLowerCase_ascii ''ALICE'' ''123456'' ?d"
    by (simp add: matches_def toLowerCase_ascii_def char_toLowerCase_ascii_def upper_letters_def
        lower_letters_def)
  have ne: "''ALICE'' \<noteq> []" "''123456'' \<noteq> []" by simp_all
  note e1 = verify_expiry[OF dist split first hit ne,
      of 601000 601000 rendering1 rendering2 601001 601001 rendering1 rendering2]
  note e2 = verify_expiry[OF dist split first hit ne,
      of 599000 599000 rendering1 rendering2 0 0 rendering1 rendering2]
  from e1 e2 show ?thesis
    by (simp add: generateSessionId_def substring_def rendering1_def rendering2_def)
qed

text \<open>
  With two matching entries issued 601 seconds ago, the first attempt fails with \<open>Expired\<close>
  and the second attempt fails with \<open>Expired\<close> again, where C2 says
  \<open>InvalidCredentials\<close>. And with a live matching entry standing before a matching entry
  issued 601 seconds ago, the verification succeeds on the live one: the stale entry matches
  the pair too, and it is neither answered with \<open>Expired\<close> nor deleted.
\<close>

theorem verify_expired_twice_counterexample:
  "fst (verify_otp toLowerCase_ascii 601000 601000 rendering1 rendering2 (JStr ''alice'') (JStr ''123456'') two_alices)
     = Expired
   \<and> fst (verify_otp toLowerCase_ascii 601001 601001 rendering1 rendering2 (JStr ''alice'') (JStr ''123456'')
            (snd (verify_otp toLowerCase_ascii 601000 601000 rendering1 rendering2 (JStr ''alice'')
                    (JStr ''123456'') two_alices)))
     = Expired
   \<and> Map_get 42 (otpStorage live_then_stale)
     = Some \<lparr> otp = ''123456'', username = ''alice'', timestamp = 0 \<rparr>
   \<and> fst (verify_otp toLowerCase_ascii 601000 601000 rendering1 rendering2 (JStr ''alice'') (JStr ''123456'')
            live_then_stale)
     = Res200_verify ''4fzyo82mvyrk2j8s9x0q1w'' ''Alice''
   \<and> Map_get 42 (otpStorage (snd (verify_otp toLowerCase_ascii 601000 601000 rendering1 rendering2 (JStr ''alice'')
                                      (JStr ''123456'') live_then_stale)))
     = Some \<lparr> otp = ''123456'', username = ''alice'', timestamp = 0 \<rparr>"
  by (simp add: example_defs run_defs)

section \<open>A new code supersedes the old one (C3)\<close>

text \<open>
  C3, as the code has it. After \<^verbatim>\<open>/start\<close> from a chat that already holds a record, the
  store has at most one entry for every chat id, and the entry of that chat is the new
  record. A verification with the old code then fails with \<open>InvalidCredentials\<close>, for any
  user name, when the new code differs from the old one and no other chat's record matches
  that user name with the old code.
\<close>

theorem start_supersedes:
  assumes dist: "distinct (map fst (otpStorage s))"
      and prior: "Map_get (chat_id m) (otpStorage s) = Some old"
      and s': "s' = start_handler delivers now code m s"
  shows "(\<forall>R. length (filter (\<lambda>e. fst e = R) (otpStorage s')) \<le> 1)
       \<and> Map_get (chat_id m) (otpStorage s') =
           Some \<lparr> otp = code,
                  username = or_else (from_username m) (or_else (from_first_name m) ''User''),
                  timestamp = now \<rparr>
       \<and> (code \<noteq> otp old \<and> u \<noteq> [] \<and> otp old \<noteq> [] \<and>
            (\<forall>e\<in>set (otpStorage s). fst e \<noteq> chat_id m \<longrightarrow> \<not> matches toLowerCase u (otp old) (snd e)) \<longrightarrow>
              verify_otp toLowerCase later later' r1 r2 (JStr u) (JStr (otp old)) s' = (InvalidCredentials, s'))"
proof -
  let ?new = "\<lparr> otp = code,
                username = or_else (from_username m) (or_else (from_first_name m) ''User''),
                timestamp = now \<rparr>"
  have store: "otpStorage s' = Map_set (chat_id m) ?new (otpStorage s)"
    unfolding s' by (rule start_handler_store)
  have "distinct (map fst (otpStorage s'))"
    unfolding store using dist by (rule distinct_Map_set)
  then have "length (filter (\<lambda>e. fst e = R) (otpStorage s')) \<le> 1" for R
    by (rule distinct_keys_count)
  then have one: "\<forall>R. length (filter (\<lambda>e. fst e = R) (otpStorage s')) \<le> 1" ..
  have get: "Map_get (chat_id m) (otpStorage s') = Some ?new"
    unfolding store by (rule Map_get_set_same)
  have old_fails: "verify_otp toLowerCase later later' r1 r2 (JStr u) (JStr (otp old)) s' = (InvalidCredentials, s')"
    if diff: "code \<noteq> otp old" and ne: "u \<noteq> []" "otp old \<noteq> []"
      and others: "\<forall>e\<in>set (otpStorage s). fst e \<noteq> chat_id m \<longrightarrow> \<not> matches toLowerCase u (otp old) (snd e)"
  proof (rule verify_otp_no_match[OF ne])
    have "set (otpStorage s') = insert (chat_id m, ?new) {e \<in> set (otpStorage s). fst e \<noteq> chat_id m}"
      unfolding store using dist by (rule set_Map_set)
    moreover have "\<not> matches toLowerCase u (otp old) ?new" using diff by (simp add: matches_def)
    ultimately show "\<forall>e\<in>set (otpStorage s'). \<not> matches toLowerCase u (otp old) (snd e)"
      using others by auto
  qed
  from one get old_fails show ?thesis by blast
qed

theorem start_supersedes_witness:
  "Map_get 42 (otpStorage (start_handler always_delivers 1000 ''654321'' (start_msg 42 ''alice'')
                             one_alice))
     = Some \<lparr> otp = ''654321'', username = ''alice'', timestamp = 1000 \<rparr>
   \<and> verify_otp toLowerCase_ascii 2000 2000 rendering1 rendering2 (JStr ''alice'') (JStr ''123456'')
       (start_handler always_delivers 1000 ''654321'' (start_msg 42 ''alice'') one_alice)
     = (InvalidCredentials,
        start_handler always_delivers 1000 ''654321'' (start_msg 42 ''alice'') one_alice)"
proof -
  let ?old = "\<lparr> otp = ''123456'', username = ''alice'', timestamp = 0 \<rparr>"
  let ?m = "start_msg 42 ''alice''"
  have dist: "distinct (map fst (otpStorage one_alice))" by (simp add: one_alice_store)
  have prior: "Map_get (chat_id ?m) (otpStorage one_alice) = Some ?old"
    by (simp add: one_alice_store Map_get_def start_msg_def)
  have others: "\<forall>e\<in>set (otpStorage one_alice). fst e \<noteq> chat_id ?m \<longrightarrow>
                  \<not> matches toLowerCase_ascii ''alice'' (otp ?old) (snd e)"
    by (simp add: one_alice_store start_msg_def)
  from start_supersedes[where delivers = always_delivers and now = 1000 and code = "''654321''"
      and u = "''alice''" and toLowerCase = toLowerCase_ascii and later = 2000 and later' = 2000
      and ?r1.0 = rendering1 and ?r2.0 = rendering2, OF dist prior refl] others
  show ?thesis by (simp add: start_msg_def)
qed

text \<open>
  The generator may return the code it returned before: chat 42 is issued 123456 twice, and
  the old code verifies after the second issue, where C3 says it fails.
\<close>

theorem reissue_same_code_counterexample:
  "Map_get 42 (otpStorage one_alice)
     = Some \<lparr> otp = ''123456'', username = ''alice'', timestamp = 0 \<rparr>
   \<and> Map_get 42 (otpStorage reissued_same_code)
     = Some \<lparr> otp = ''123456'', username = ''alice'', timestamp = 1000 \<rparr>
   \<and> fst (verify_otp toLowerCase_ascii 2000 2000 rendering1 rendering2 (JStr ''alice'') (JStr ''123456'')
            reissued_same_code)
     = Res200_verify ''4fzyo82mvyrk2j8s9x0q1w'' ''alice''"
  by (simp add: example_defs run_defs)

section \<open>Case-insensitive user names (C4)\<close>

text \<open>
  C4, as the code has it. Let \<open>(cid, d)\<close> be an entry at most ten minutes old, with a
  chat id other than 0, and let no earlier entry match its display name and code. A
  verification with a user name that is not empty and is equal to the display name up to
  letter case (\<^verbatim>\<open>toLowerCase\<close> gives the same string for both), and with the entry's
  code, succeeds, and the response carries the stored display name. The session looked up
  afterwards carries it too, with \<open>verified = True\<close>, when the generated session id is not
  empty; an empty session id matches no route and the lookup is answered 404.
\<close>

theorem verify_case_insensitive:
  assumes split: "otpStorage s = pre @ (cid, d) # post"
      and first: "\<forall>e\<in>set pre. \<not> matches toLowerCase (username d) (otp d) (snd e)"
      and id: "cid \<noteq> 0"
      and ne: "u \<noteq> []" "otp d \<noteq> []"
      and live: "now - timestamp d \<le> 10 * 60 * 1000"
      and ci: "equal_up_to_case toLowerCase u (username d)"
      and v: "verify_otp toLowerCase now now' r1 r2 (JStr u) (JStr (otp d)) s = (res, s')"
  shows "res = Res200_verify (generateSessionId r1 r2) (username d)
       \<and> (generateSessionId r1 r2 \<noteq> [] \<longrightarrow>
            get_session (generateSessionId r1 r2) s' = Res200_session (username d) True now')
       \<and> (generateSessionId r1 r2 = [] \<longrightarrow>
            get_session (generateSessionId r1 r2) s' = Res404_no_route)"
proof -
  have low: "toLowerCase u = toLowerCase (username d)"
    using ci by (simp add: equal_up_to_case_def)
  have first': "\<forall>e\<in>set pre. \<not> matches toLowerCase u (otp d) (snd e)"
    using first by (simp add: matches_def low)
  have hit: "matches toLowerCase u (otp d) d" by (simp add: matches_def low)
  from live have nexp: "\<not> now - timestamp d > 10 * 60 * 1000" by simp
  from verify_otp_found_at[OF ne split first' hit nexp, of now' r1 r2] v id
  have res: "res = Res200_verify (generateSessionId r1 r2) (username d)"
    and s': "s' = s\<lparr> userSessions :=
                       Map_set (generateSessionId r1 r2)
                         \<lparr> chatId = cid, session_username = username d,
                           verified = True, session_timestamp = now' \<rparr> (userSessions s),
                     otpStorage := Map_delete cid (otpStorage s),
                     sent := sent s @ [(cid, Welcome (username d))] \<rparr>"
    by simp_all
  show ?thesis by (simp add: res s' get_session_def Map_get_set_same)
qed

theorem verify_case_insensitive_witness:
  "fst (verify_otp toLowerCase_ascii 1000 1001 rendering1 rendering2 (JStr ''ALICE'')
          (JStr ''123456'') one_alice)
     = Res200_verify ''4fzyo82mvyrk2j8s9x0q1w'' ''alice''
   \<and> get_session ''4fzyo82mvyrk2j8s9x0q1w''
       (snd (verify_otp toLowerCase_ascii 1000 1001 rendering1 rendering2 (JStr ''ALICE'')
               (JStr ''123456'') one_alice))
     = Res200_session ''alice'' True 1001"
proof -
  let ?d = "\<lparr> otp = ''123456'', username = ''alice'', timestamp = 0 \<rparr>"
  have split: "otpStorage one_alice = [] @ (42, ?d) # []" by (simp add: one_alice_store)
  have first: "\<forall>e\<in>set []. \<not> matches toLowerCase_ascii (username ?d) (otp ?d) (snd e)"
    by simp
  have id: "(42::int) \<noteq> 0" by simp
  have ne: "''ALICE'' \<noteq> []" "otp ?d \<noteq> []" by simp_all
  have live: "1000 - timestamp ?d \<le> 10 * 60 * 1000" by simp
  have ci: "equal_up_to_case toLowerCase_ascii ''ALICE'' (username ?d)"
    by (simp add: equal_up_to_case_def toLowerCase_ascii_def char_toLowerCase_ascii_def
        upper_letters_def lower_letters_def)
  have sid: "generateSessionId rendering1 rendering2 = ''4fzyo82mvyrk2j8s9x0q1w''"
    by (simp add: generateSessionId_def substring_def rendering1_def rendering2_def)
  have v: "verify_otp toLowerCase_ascii 1000 1001 rendering1 rendering2 (JStr ''ALICE'')
             (JStr (otp ?d)) one_alice
       = (fst (verify_otp toLowerCase_ascii 1000 1001 rendering1 rendering2 (JStr ''ALICE'')
                 (JStr ''123456'') one_alice),
          snd (verify_otp toLowerCase_ascii 1000 1001 rendering1 rendering2 (JStr ''ALICE'')
                 (JStr ''123456'') one_alice))"
    by simp
  from verify_case_insensitive[OF split first id ne live ci v] show ?thesis
    by (simp add: sid)
qed

text \<open>
  Chat 42 holds a live record with the display name alice. A verification with the user name
  alice and the right code answers with Alice, the display name of chat 41, which comes first
  in the store; and when the earlier matching records are stale, the verification fails with
  \<open>Expired\<close> although the record of chat 42 is live. And when both random numbers are 0,
  rendered \<open>''0''\<close>, the session id is empty: the verification succeeds, and the lookup of
  the session is answered 404.
\<close>

theorem verify_other_casing_counterexample:
  "Map_get 42 (otpStorage two_alices)
     = Some \<lparr> otp = ''123456'', username = ''alice'', timestamp = 0 \<rparr>
   \<and> equal_up_to_case toLowerCase_ascii ''alice'' ''alice''
   \<and> fst (verify_otp toLowerCase_ascii 1000 1000 rendering1 rendering2 (JStr ''alice'')
            (JStr ''123456'') two_alices)
     = Res200_verify ''4fzyo82mvyrk2j8s9x0q1w'' ''Alice''
   \<and> Map_get 42 (otpStorage stale_and_live)
     = Some \<lparr> otp = ''123456'', username = ''alice'', timestamp = 590000 \<rparr>
   \<and> fst (verify_otp toLowerCase_ascii 601000 601000 rendering1 rendering2 (JStr ''alice'')
            (JStr ''123456'') stale_and_live)
     = Expired
   \<and> fst (verify_otp toLowerCase_ascii 1000 1000 ''0'' ''0'' (JStr ''ALICE'') (JStr ''123456'')
            one_alice)
     = Res200_verify [] ''alice''
   \<and> get_session []
        (snd (verify_otp toLowerCase_ascii 1000 1000 ''0'' ''0'' (JStr ''ALICE'') (JStr ''123456'')
                one_alice))
     = Res404_no_route"
  by (simp add: example_defs run_defs equal_up_to_case_def)

section \<open>The sweeper's period (C5)\<close>

text \<open>
  C5, as the code has it. The period handed to \<^verbatim>\<open>setInterval\<close> is five minutes, half of
  the ten minutes after which a record counts as expired.
\<close>

theorem sweeper_period_five_minutes:
  "sweeper_period_ms = minutes_ms 5 \<and> sweeper_period_ms = 300000
   \<and> 2 * sweeper_period_ms = minutes_ms 10"
  by (simp add: sweeper_period_ms_def minutes_ms_def)

text \<open>The period is not ten minutes.\<close>

theorem sweeper_period_counterexample:
  "sweeper_period_ms \<noteq> minutes_ms 10"
  by (simp add: sweeper_period_ms_def minutes_ms_def)

section \<open>Session identifiers (C6)\<close>

lemma substring_2_15: "substring 2 15 r = take 13 (drop 2 r)"
  by (simp add: substring_def Let_def min_def max_def)

text \<open>
  C6, as the code has it. The identifier is the concatenation of two fragments, one for each
  rendering; a fragment is what follows the point, cut after 13 characters, so it consists
  of base-36 digits and has at most 13 of them, and it has at least ten exactly when the
  rendering has at least ten fraction digits.
\<close>

theorem generateSessionId_shape:
  assumes "is_base36_rendering r1" and "is_base36_rendering r2"
  shows "generateSessionId r1 r2 = take 13 (drop 2 r1) @ take 13 (drop 2 r2)
       \<and> set (generateSessionId r1 r2) \<subseteq> set base36_digits
       \<and> length (take 13 (drop 2 r1)) = min 13 (length r1 - 2)
       \<and> length (take 13 (drop 2 r2)) = min 13 (length r2 - 2)
       \<and> (10 \<le> length (take 13 (drop 2 r1)) \<longleftrightarrow> 12 \<le> length r1)
       \<and> (10 \<le> length (take 13 (drop 2 r2)) \<longleftrightarrow> 12 \<le> length r2)"
proof -
  have digits: "set (take 13 (drop 2 r)) \<subseteq> set base36_digits" if "is_base36_rendering r" for r
  proof -
    from that have "set (drop 2 r) \<subseteq> set base36_digits"
      unfolding is_base36_rendering_def by (auto simp: list_all_iff)
    moreover have "set (take 13 (drop 2 r)) \<subseteq> set (drop 2 r)" by (rule set_take_subset)
    ultimately show ?thesis by blast
  qed
  have "generateSessionId r1 r2 = take 13 (drop 2 r1) @ take 13 (drop 2 r2)"
    by (simp add: generateSessionId_def substring_2_15)
  moreover from digits[OF assms(1)] digits[OF assms(2)]
  have "set (generateSessionId r1 r2) \<subseteq> set base36_digits"
    by (simp add: generateSessionId_def substring_2_15)
  moreover have "length (take 13 (drop 2 r)) = min 13 (length r - 2)" for r :: string
    by simp
  moreover have "10 \<le> length (take 13 (drop 2 r)) \<longleftrightarrow> 12 \<le> length r" for r :: string
    by auto
  ultimately show ?thesis by blast
qed

theorem generateSessionId_shape_witness:
  "generateSessionId rendering1 rendering2 = take 13 (drop 2 rendering1) @ take 13 (drop 2 rendering2)
   \<and> set (generateSessionId rendering1 rendering2) \<subseteq> set base36_digits
   \<and> length (take 13 (drop 2 rendering1)) = min 13 (length rendering1 - 2)
   \<and> 10 \<le> length (take 13 (drop 2 rendering1))"
proof -
  have r1: "is_base36_rendering rendering1"
    by (simp add: is_base36_rendering_def rendering1_def base36_digits_def)
  have r2: "is_base36_rendering rendering2"
    by (simp add: is_base36_rendering_def rendering2_def base36_digits_def)
  have long: "12 \<le> length rendering1" by (simp add: rendering1_def)
  from generateSessionId_shape[OF r1 r2] long show ?thesis by blast
qed

text \<open>
  The random number 0.5 renders as \<open>''0.i''\<close> and 0 renders as \<open>''0''\<close>: the fragments have
  one character and none.
\<close>

theorem short_fragment_counterexample:
  "is_base36_rendering ''0.i''
   \<and> generateSessionId ''0.i'' ''0.i'' = ''ii''
   \<and> length (substring 2 15 ''0.i'') = 1
   \<and> is_base36_rendering ''0''
   \<and> generateSessionId ''0'' ''0'' = ''''"
  by (simp add: is_base36_rendering_def base36_digits_def generateSessionId_def substring_def)

section \<open>Delivery failure in the webhook variant (C7)\<close>

lemma otp_in_try_scope: "resolve ''otp'' try_scope = Inr ()"
  by (simp add: resolve_def try_scope_def)

lemma otp_not_in_catch_scope: "resolve ''otp'' catch_scope = Inl (ReferenceError ''otp'')"
  by (simp add: resolve_def catch_scope_def handler_scope_def module_scope_def)

text \<open>
  C7 says that a failed delivery is followed by exactly one fallback delivery of the same
  code. In the code the fallback's text cannot be built: \<^verbatim>\<open>otp\<close> is not in scope in the
  \<^verbatim>\<open>catch\<close> block. When the first delivery fails, the handler therefore makes no second
  call of \<^verbatim>\<open>sendMessage\<close>; it logs the failure and the ReferenceError, and the stored
  record stays.
\<close>

theorem start_webhook_no_fallback_send:
  assumes "\<not> delivers (chat_id m) (OtpMarkdown code)"
  shows "sent (start_handler_webhook delivers startTime now endTime code m s)
           = sent s @ [(chat_id m, OtpMarkdown code)]
       \<and> console (start_handler_webhook delivers startTime now endTime code m s)
           = console s @ [ErrorInStartHandler SendFailed, ErrorFallbackFailed (ReferenceError ''otp'')]
       \<and> Map_get (chat_id m) (otpStorage (start_handler_webhook delivers startTime now endTime code m s))
           = Some \<lparr> otp = code,
                    username = or_else (from_username m)
                                 (or_else (from_first_name m) (''user_'' @ Number_toString (chat_id m))),
                    timestamp = now \<rparr>"
  using assms
  by (simp add: start_handler_webhook_def bot_sendMessage_def Let_def otp_not_in_catch_scope
        Map_get_set_same)

theorem start_webhook_no_fallback_send_witness:
  "sent (start_handler_webhook never_delivers 0 1 2 ''123456'' (start_msg 42 ''alice'') initial_state)
     = [(42, OtpMarkdown ''123456'')]
   \<and> console (start_handler_webhook never_delivers 0 1 2 ''123456'' (start_msg 42 ''alice'')
                initial_state)
     = [ErrorInStartHandler SendFailed, ErrorFallbackFailed (ReferenceError ''otp'')]
   \<and> Map_get 42 (otpStorage (start_handler_webhook never_delivers 0 1 2 ''123456''
                                (start_msg 42 ''alice'') initial_state))
     = Some \<lparr> otp = ''123456'', username = ''alice'', timestamp = 1 \<rparr>"
proof -
  have fails: "\<not> never_delivers (chat_id (start_msg 42 ''alice'')) (OtpMarkdown ''123456'')"
    by (simp add: never_delivers_def)
  from start_webhook_no_fallback_send[where delivers = never_delivers
      and m = "start_msg 42 ''alice''" and code = "''123456''" and startTime = 0 and now = 1
      and endTime = 2 and s = initial_state, OF fails]
  show ?thesis
    by (simp add: start_msg_def initial_state_def)
qed

section \<open>The sweeper's tick (C8)\<close>

text \<open>
  C8. After a tick the store holds exactly the entries that were at most ten minutes old at
  the tick, unchanged and in their order; every older entry is gone; the sessions are
  untouched.
\<close>

theorem sweeper_tick_effect:
  assumes "distinct (map fst (otpStorage s))"
  shows "otpStorage (sweeper_tick now s) =
           filter (\<lambda>e. now - timestamp (snd e) \<le> 10 * 60 * 1000) (otpStorage s)
       \<and> userSessions (sweeper_tick now s) = userSessions s"
proof -
  have "filter (\<lambda>e. \<not> (\<exists>x \<in> set (otpStorage s). fst x = fst e \<and> now - timestamp (snd x) > 10 * 60 * 1000))
          (otpStorage s)
        = filter (\<lambda>e. now - timestamp (snd e) \<le> 10 * 60 * 1000) (otpStorage s)"
  proof (rule filter_cong[OF refl])
    fix e assume e: "e \<in> set (otpStorage s)"
    have same: "x = e" if "x \<in> set (otpStorage s)" "fst x = fst e" for x
      using assms that e by (metis eq_key_imp_eq_value prod.collapse)
    have "(\<exists>x \<in> set (otpStorage s). fst x = fst e \<and> now - timestamp (snd x) > 10 * 60 * 1000)
            \<longleftrightarrow> now - timestamp (snd e) > 10 * 60 * 1000"
      using e same by blast
    then show "(\<not> (\<exists>x \<in> set (otpStorage s). fst x = fst e \<and> now - timestamp (snd x) > 10 * 60 * 1000))
                = (now - timestamp (snd e) \<le> 10 * 60 * 1000)" by auto
  qed
  then show ?thesis
    by (simp add: sweeper_tick_def sweep_loop_store sweep_loop_sessions)
qed

theorem sweeper_tick_effect_witness:
  "otpStorage (sweeper_tick 601000 stale_and_live)
     = [(42, \<lparr> otp = ''123456'', username = ''alice'', timestamp = 590000 \<rparr>)]
   \<and> userSessions (sweeper_tick 601000 stale_and_live) = userSessions stale_and_live"
proof -
  have dist: "distinct (map fst (otpStorage stale_and_live))"
    by (simp add: stale_and_live_store)
  from sweeper_tick_effect[OF dist, of 601000] show ?thesis
    by (simp add: stale_and_live_store)
qed

section \<open>An expired first match stops the scan (C9)\<close>





section \<open>Failures leave the state alone (C10)\<close>

text \<open>
  C10. A verification answered with \<open>InvalidRequest\<close> or \<open>InvalidCredentials\<close> returns the
  state it was given. A changed state means the answer was \<open>Expired\<close> or a success:
  \<open>Expired\<close> deletes the entry of one stored chat id and nothing else; a success deletes
  the entry of one stored chat id, sets one session and records the welcome message.
\<close>

theorem verify_failure_atomic:
  assumes "verify_otp toLowerCase now now' r1 r2 req_username req_otp s = (res, s')"
  shows "(res = InvalidRequest \<or> res = InvalidCredentials \<longrightarrow> s' = s)
       \<and> (s' \<noteq> s \<longrightarrow> res = Expired \<or> (\<exists>sid name. res = Res200_verify sid name))
       \<and> (res = Expired \<longrightarrow>
            (\<exists>cid d. (cid, d) \<in> set (otpStorage s) \<and>
               s' = s\<lparr> otpStorage := Map_delete cid (otpStorage s) \<rparr>))
       \<and> (\<forall>sid name. res = Res200_verify sid name \<longrightarrow>
            (\<exists>cid d. (cid, d) \<in> set (otpStorage s) \<and> name = username d \<and>
               s' = s\<lparr> userSessions :=
                         Map_set sid \<lparr> chatId = cid, session_username = username d,
                                       verified = True, session_timestamp = now' \<rparr>
                           (userSessions s),
                       otpStorage := Map_delete cid (otpStorage s),
                       sent := sent s @ [(cid, Welcome (username d))] \<rparr>))"
proof -
  from verify_otp_cases[OF assms] consider
      (unchanged) "res = InvalidRequest \<or> res = InvalidCredentials \<or> res = Res500" "s' = s"
    | (expired) cid where "res = Expired" "scan toLowerCase now req_username req_otp (otpStorage s) = ExpiredAt cid"
        "s' = s\<lparr> otpStorage := Map_delete cid (otpStorage s) \<rparr>"
    | (success) cid d where "res = Res200_verify (generateSessionId r1 r2) (username d)"
        "scan toLowerCase now req_username req_otp (otpStorage s) = Found cid d"
        "s' = s\<lparr> userSessions :=
                     Map_set (generateSessionId r1 r2)
                       \<lparr> chatId = cid, session_username = username d,
                         verified = True, session_timestamp = now' \<rparr> (userSessions s),
                    otpStorage := Map_delete cid (otpStorage s),
                    sent := sent s @ [(cid, Welcome (username d))] \<rparr>"
    by blast
  then show ?thesis
  proof cases
    case unchanged
    then show ?thesis by auto
  next
    case expired
    from scan_ExpiredAt_D[OF expired(2)] obtain d pre post
      where "otpStorage s = pre @ (cid, d) # post" by blast
    then have "(cid, d) \<in> set (otpStorage s)" by simp
    with expired(1,3) show ?thesis by auto
  next
    case success
    from scan_Found_D[OF success(2)] obtain pre post
      where "otpStorage s = pre @ (cid, d) # post" by blast
    then have "(cid, d) \<in> set (otpStorage s)" by simp
    with success(1,3) show ?thesis by auto
  qed
qed

theorem verify_failure_atomic_witness:
  "verify_otp toLowerCase_ascii 1000 1000 rendering1 rendering2 (JStr ''alice'') (JStr ''000000'') two_alices
     = (InvalidCredentials, two_alices)
   \<and> verify_otp toLowerCase_ascii 1000 1000 rendering1 rendering2 (JStr ''alice'') JUndefined two_alices
     = (InvalidRequest, two_alices)"
proof -
  let ?v1 = "verify_otp toLowerCase_ascii 1000 1000 rendering1 rendering2 (JStr ''alice'') (JStr ''000000'') two_alices"
  let ?v2 = "verify_otp toLowerCase_ascii 1000 1000 rendering1 rendering2 (JStr ''alice'') JUndefined two_alices"
  have r1: "fst ?v1 = InvalidCredentials"
    by (simp add: verify_otp_def two_alices_store toLowerCase_ascii_def)
  have r2: "fst ?v2 = InvalidRequest"
    by (simp add: verify_otp_def)
  have "?v1 = (fst ?v1, snd ?v1)" by simp
  from verify_failure_atomic[OF this] r1 have s1: "snd ?v1 = two_alices" by simp
  have "?v2 = (fst ?v2, snd ?v2)" by simp
  from verify_failure_atomic[OF this] r2 have s2: "snd ?v2 = two_alices" by simp
  from r1 s1 r2 s2 show ?thesis by (simp add: prod_eq_iff)
qed

end
